theory Spec2Isabelle
  imports Main
begin

section \<open>The URL shortener's storage engine (server/db and the shorten handler)\<close>

text \<open>
  The program keeps all shortened URLs in one JSON file, \<^verbatim>\<open>data/urls.json\<close>, guarded by a
  lock file \<^verbatim>\<open>data/urls.json.lock\<close>. Every function of \<^verbatim>\<open>server/db\<close> is modelled as a
  function from the state of these files to a result and the new state. A rejected
  promise (a thrown exception) is the \<open>Inl\<close> of a sum type.
\<close>

subsection \<open>Data\<close>

text \<open>
  One element of \<^verbatim>\<open>db.urls\<close>, with the fields the handler writes. \<open>clicks\<close> is \<open>None\<close> when the
  object has no such field, which \<^verbatim>\<open>url.clicks || 0\<close> reads as 0.
\<close>

record url_record =
  original :: string
  short :: string
  code :: string
  createdAt :: string
  clicks :: "nat option"

text \<open>
  The parsed file: the array \<^verbatim>\<open>urls\<close> and the object \<^verbatim>\<open>codes\<close>, whose own properties are a
  map from code to original URL.
\<close>

record db =
  urls :: "url_record list"
  codes :: "string \<rightharpoonup> string"

text \<open>
  The text of the data file, up to what \<^verbatim>\<open>JSON.parse\<close> makes of it: either a text that
  \<^verbatim>\<open>JSON.parse\<close> rejects (the string only tells such texts apart), or a text that parses to
  a store. \<^verbatim>\<open>JSON.parse\<close> and \<^verbatim>\<open>JSON.stringify\<close> are built into the language; texts
  that are valid JSON of another shape are outside this model.
\<close>

datatype file_text = Not_JSON string | JSON_of db

datatype error =
    ELOCKED      \<comment> \<open>\<^verbatim>\<open>lock\<close>: the lock file still exists when the wait of 1000 ms is over\<close>
  | ENOENT       \<comment> \<open>no such file or directory\<close>
  | EACCES       \<comment> \<open>the file system refuses to create or write\<close>
  | SyntaxError  \<comment> \<open>thrown by \<^verbatim>\<open>JSON.parse\<close>\<close>

text \<open>The directory \<^verbatim>\<open>data\<close>: missing, or present with or without the file \<^verbatim>\<open>urls.json\<close>.\<close>

datatype data_dir = NoDir | Dir "file_text option"

text \<open>What the functions do to the two files, in order; the log is only observed.\<close>

datatype event = Lock_acquired | Lock_released | Read_file | Wrote_file

record world =
  fs :: data_dir
  lock_held :: bool    \<comment> \<open>the lock file exists\<close>
  mkdir_ok :: bool     \<comment> \<open>the file system lets \<^verbatim>\<open>data\<close> be created\<close>
  write_ok :: bool     \<comment> \<open>the file system lets \<^verbatim>\<open>urls.json\<close> be written\<close>
  log :: "event list"

definition emit :: "event \<Rightarrow> world \<Rightarrow> world" where
  "emit e w = w\<lparr>log := log w @ [e]\<rparr>"

subsection \<open>The language's own operations\<close>

definition empty_db :: db where
  "empty_db = \<lparr>urls = [], codes = Map.empty\<rparr>"

definition JSON_parse :: "file_text \<Rightarrow> error + db" where
  "JSON_parse t = (case t of Not_JSON _ \<Rightarrow> Inl SyntaxError | JSON_of d \<Rightarrow> Inr d)"

definition JSON_stringify :: "db \<Rightarrow> file_text" where
  "JSON_stringify d = JSON_of d"

text \<open>
  A property read \<^verbatim>\<open>obj[k]\<close> on a parsed object finds an own property first and then
  those of \<^verbatim>\<open>Object.prototype\<close>; only when both miss is the value \<^verbatim>\<open>undefined\<close>.
\<close>

datatype js_value = Undefined | Str string | Inherited string

definition object_prototype_names :: "string list" where
  "object_prototype_names =
     [''constructor'', ''__proto__'', ''hasOwnProperty'', ''isPrototypeOf'',
      ''propertyIsEnumerable'', ''toLocaleString'', ''toString'', ''valueOf'',
      ''__defineGetter__'', ''__defineSetter__'', ''__lookupGetter__'', ''__lookupSetter__'']"

definition js_get :: "(string \<rightharpoonup> string) \<Rightarrow> string \<Rightarrow> js_value" where
  "js_get obj k =
     (case obj k of
        Some v \<Rightarrow> Str v
      | None \<Rightarrow> if k \<in> set object_prototype_names then Inherited k else Undefined)"

text \<open>
  An assignment \<^verbatim>\<open>obj[k] = v\<close> of a string creates or overwrites the own property, except
  for \<^verbatim>\<open>__proto__\<close> on an object without such an own property: there the inherited setter
  runs and ignores a value that is not an object.
\<close>

definition js_set :: "(string \<rightharpoonup> string) \<Rightarrow> string \<Rightarrow> string \<Rightarrow> (string \<rightharpoonup> string)" where
  "js_set obj k v = (if k = ''__proto__'' \<and> obj k = None then obj else obj(k \<mapsto> v))"

text \<open>Truthiness, as \<^verbatim>\<open>while (...)\<close> and \<^verbatim>\<open>if (...)\<close> test it.\<close>

fun truthy :: "js_value \<Rightarrow> bool" where
  "truthy Undefined = False"
| "truthy (Str s) = (s \<noteq> [])"
| "truthy (Inherited _) = True"

text \<open>\<^verbatim>\<open>s.substring(a, b)\<close> for indices that are natural numbers.\<close>

definition substring :: "string \<Rightarrow> nat \<Rightarrow> nat \<Rightarrow> string" where
  "substring s a b =
     (let n = length s; a' = min a n; b' = min b n; lo = min a' b'; hi = max a' b'
      in take (hi - lo) (drop lo s))"

text \<open>
  \<^verbatim>\<open>x + 1\<close> on a number that holds a natural number. Numbers are IEEE doubles: below
  \<open>2^53\<close> the sum is exact; from there on it is rounded to the nearest double, ties to
  the even significand.
\<close>

definition js_add1 :: "nat \<Rightarrow> nat" where
  "js_add1 n =
     (if n < 2 ^ 53 then n + 1
      else if n < 2 ^ 54 \<and> odd (n div 2) then n + 2
      else n)"

subsection \<open>File system and lock file\<close>

text \<open>\<^verbatim>\<open>fs.mkdir(dir, { recursive: true })\<close>: nothing to do when the directory exists.\<close>

definition fs_mkdir :: "world \<Rightarrow> (error + unit) \<times> world" where
  "fs_mkdir w =
     (case fs w of
        Dir _ \<Rightarrow> (Inr (), w)
      | NoDir \<Rightarrow> if mkdir_ok w then (Inr (), w\<lparr>fs := Dir None\<rparr>) else (Inl EACCES, w))"

definition fs_access :: "world \<Rightarrow> error + unit" where
  "fs_access w = (case fs w of Dir (Some _) \<Rightarrow> Inr () | _ \<Rightarrow> Inl ENOENT)"

definition fs_readFile :: "world \<Rightarrow> (error + file_text) \<times> world" where
  "fs_readFile w =
     (case fs w of
        Dir (Some t) \<Rightarrow> (Inr t, emit Read_file w)
      | _ \<Rightarrow> (Inl ENOENT, w))"

definition fs_writeFile :: "file_text \<Rightarrow> world \<Rightarrow> (error + unit) \<times> world" where
  "fs_writeFile t w =
     (case fs w of
        NoDir \<Rightarrow> (Inl ENOENT, w)
      | Dir _ \<Rightarrow>
          if write_ok w then (Inr (), emit Wrote_file (w\<lparr>fs := Dir (Some t)\<rparr>))
          else (Inl EACCES, w))"

text \<open>
  \<^verbatim>\<open>lock(lockPath, { wait: 1000 })\<close> creates the lock file exclusively. Nothing but the
  modelled call changes the world, so a lock file that exists stays for the whole wait
  and the call fails. \<^verbatim>\<open>unlock(lockPath)\<close> removes the lock file, whoever created it, and
  never reports an error.
\<close>

definition lock :: "world \<Rightarrow> (error + unit) \<times> world" where
  "lock w =
     (case fs w of
        NoDir \<Rightarrow> (Inl ENOENT, w)
      | Dir _ \<Rightarrow>
          if lock_held w then (Inl ELOCKED, w)
          else (Inr (), emit Lock_acquired (w\<lparr>lock_held := True\<rparr>)))"

definition unlock :: "world \<Rightarrow> world" where
  "unlock w = emit Lock_released (w\<lparr>lock_held := False\<rparr>)"

subsection \<open>server/db\<close>

definition initDB :: "world \<Rightarrow> (error + unit) \<times> world" where
  "initDB w =
     (case fs_mkdir w of
        (Inl _, w1) \<Rightarrow> fs_writeFile (JSON_stringify empty_db) w1
      | (Inr _, w1) \<Rightarrow>
          (case fs_access w1 of
             Inl _ \<Rightarrow> fs_writeFile (JSON_stringify empty_db) w1
           | Inr _ \<Rightarrow> (Inr (), w1)))"

definition readDB :: "world \<Rightarrow> (error + db) \<times> world" where
  "readDB w =
     (case lock w of
        (Inl e, w1) \<Rightarrow> (Inl e, unlock w1)
      | (Inr _, w1) \<Rightarrow>
          (case fs_readFile w1 of (r, w2) \<Rightarrow>
             (let data = (case r of Inl _ \<Rightarrow> JSON_stringify empty_db | Inr t \<Rightarrow> t)
              in (JSON_parse data, unlock w2))))"

definition writeDB :: "db \<Rightarrow> world \<Rightarrow> (error + unit) \<times> world" where
  "writeDB data w =
     (case lock w of
        (Inl e, w1) \<Rightarrow> (Inl e, unlock w1)
      | (Inr _, w1) \<Rightarrow>
          (case fs_writeFile (JSON_stringify data) w1 of (r, w2) \<Rightarrow> (r, unlock w2)))"

definition findUrl :: "string \<Rightarrow> world \<Rightarrow> (error + url_record option) \<times> world" where
  "findUrl originalUrl w =
     (case readDB w of
        (Inl e, w1) \<Rightarrow> (Inl e, w1)
      | (Inr d, w1) \<Rightarrow> (Inr (find (\<lambda>item. original item = originalUrl) (urls d)), w1))"

definition findCode :: "string \<Rightarrow> world \<Rightarrow> (error + js_value) \<times> world" where
  "findCode shortCode w =
     (case readDB w of
        (Inl e, w1) \<Rightarrow> (Inl e, w1)
      | (Inr d, w1) \<Rightarrow> (Inr (js_get (codes d) shortCode), w1))"

definition saveUrl :: "url_record \<Rightarrow> world \<Rightarrow> (error + url_record) \<times> world" where
  "saveUrl urlData w =
     (case readDB w of
        (Inl e, w1) \<Rightarrow> (Inl e, w1)
      | (Inr d, w1) \<Rightarrow>
          (let d' = d\<lparr>urls := urls d @ [urlData],
                      codes := js_set (codes d) (code urlData) (original urlData)\<rparr>
           in case writeDB d' w1 of
                (Inl e, w2) \<Rightarrow> (Inl e, w2)
              | (Inr _, w2) \<Rightarrow> (Inr urlData, w2)))"

text \<open>
  \<^verbatim>\<open>url.clicks = (url.clicks || 0) + 1\<close> on the element that \<^verbatim>\<open>find\<close> returned, which is
  the first one with the code: the array is changed in place at that position.
\<close>

definition click :: "url_record \<Rightarrow> url_record" where
  "click url = url\<lparr>clicks := Some (js_add1 (case clicks url of None \<Rightarrow> 0 | Some n \<Rightarrow> n))\<rparr>"

fun click_first :: "string \<Rightarrow> url_record list \<Rightarrow> url_record list" where
  "click_first c [] = []"
| "click_first c (item # items) =
     (if code item = c then click item # items else item # click_first c items)"

definition registerClick :: "string \<Rightarrow> world \<Rightarrow> (error + unit) \<times> world" where
  "registerClick c w =
     (case readDB w of
        (Inl e, w1) \<Rightarrow> (Inl e, w1)
      | (Inr d, w1) \<Rightarrow>
          (case find (\<lambda>item. code item = c) (urls d) of
             None \<Rightarrow> (Inr (), w1)
           | Some _ \<Rightarrow> writeDB (d\<lparr>urls := click_first c (urls d)\<rparr>) w1))"

subsection \<open>The handler of POST /api/shorten\<close>

text \<open>
  \<^verbatim>\<open>Math.random().toString(36).substring(2, 8)\<close>. The argument is the text that
  \<^verbatim>\<open>toString(36)\<close> gives for the random number: \<^verbatim>\<open>0\<close> for zero, otherwise \<^verbatim>\<open>0.\<close> and the
  digits of the fraction in base 36, as many as the number needs.
\<close>

definition generateCode :: "string \<Rightarrow> string" where
  "generateCode rendering = substring rendering 2 8"

definition base36 :: "char \<Rightarrow> bool" where
  "base36 ch \<longleftrightarrow> ch \<in> set ''0123456789abcdefghijklmnopqrstuvwxyz''"

text \<open>The texts \<^verbatim>\<open>toString(36)\<close> can give for a number in the interval from 0 to 1.\<close>

definition rendering36 :: "string \<Rightarrow> bool" where
  "rendering36 s \<longleftrightarrow>
     s = ''0'' \<or> (take 2 s = ''0.'' \<and> drop 2 s \<noteq> [] \<and> list_all base36 (drop 2 s))"

text \<open>
  The loop \<^verbatim>\<open>do { code = ... } while (await findCode(code))\<close>. The list holds the texts of
  the random numbers the loop draws, in order. The loop has no bound of its own: when
  every text of the list gives a code that is taken, the loop is still running and the
  result is \<open>None\<close>.
\<close>

fun draw_code :: "string list \<Rightarrow> world \<Rightarrow> (error + string) option \<times> world" where
  "draw_code [] w = (None, w)"
| "draw_code (r # rs) w =
     (let c = generateCode r
      in case findCode c w of
           (Inl e, w1) \<Rightarrow> (Some (Inl e), w1)
         | (Inr v, w1) \<Rightarrow> if truthy v then draw_code rs w1 else (Some (Inr c), w1))"

datatype reply_body =
    Link string string string   \<comment> \<open>\<^verbatim>\<open>{ originalUrl, shortUrl, code }\<close>\<close>
  | Rejected string             \<comment> \<open>\<^verbatim>\<open>{ error }\<close> with a message of the handler or of \<^verbatim>\<open>validateUrl\<close>\<close>
  | Failed error                \<comment> \<open>\<^verbatim>\<open>{ error }\<close> with the message of an exception of the storage\<close>

text \<open>
  The handler. \<^verbatim>\<open>validateUrl\<close> rests on the packages \<^verbatim>\<open>validator\<close> and \<^verbatim>\<open>URL\<close> and is a
  parameter: it gives the normalised URL or throws with a message. \<^verbatim>\<open>BASE_URL\<close> comes
  from the environment and \<open>now\<close> is \<^verbatim>\<open>new Date().toISOString()\<close>. The body's
  \<^verbatim>\<open>originalUrl\<close> is \<open>None\<close> when the field is missing. The result is the status and the
  body of the response, or \<open>None\<close> while the loop runs.
\<close>

definition post_shorten ::
  "(string \<Rightarrow> string + string) \<Rightarrow> string \<Rightarrow> string \<Rightarrow> string list \<Rightarrow> string option \<Rightarrow> world
     \<Rightarrow> (nat \<times> reply_body) option \<times> world" where
  "post_shorten validateUrl BASE_URL now draws originalUrl w =
     (case originalUrl of
        None \<Rightarrow> (Some (400, Rejected ''Se requiere una URL''), w)
      | Some url \<Rightarrow>
          if url = [] then (Some (400, Rejected ''Se requiere una URL''), w)
          else
            (case validateUrl url of
               Inl msg \<Rightarrow> (Some (400, Rejected msg), w)
             | Inr validatedUrl \<Rightarrow>
                 (case findUrl validatedUrl w of
                    (Inl e, w1) \<Rightarrow> (Some (400, Failed e), w1)
                  | (Inr (Some existing), w1) \<Rightarrow>
                      (Some (200, Link (original existing) (short existing) (code existing)), w1)
                  | (Inr None, w1) \<Rightarrow>
                      (case draw_code draws w1 of
                         (None, w2) \<Rightarrow> (None, w2)
                       | (Some (Inl e), w2) \<Rightarrow> (Some (400, Failed e), w2)
                       | (Some (Inr c), w2) \<Rightarrow>
                           (let shortUrl = BASE_URL @ ''/r/'' @ c;
                                urlData = \<lparr>original = validatedUrl, short = shortUrl, code = c,
                                           createdAt = now, clicks = Some 0\<rparr>
                            in case saveUrl urlData w2 of
                                 (Inl e, w3) \<Rightarrow> (Some (400, Failed e), w3)
                               | (Inr _, w3) \<Rightarrow> (Some (201, Link validatedUrl shortUrl c), w3))))))"

subsection \<open>Notions the properties are stated with\<close>

text \<open>The records in the data file; none when the file is missing or is not JSON.\<close>

definition stored_urls :: "world \<Rightarrow> url_record list" where
  "stored_urls w = (case fs w of Dir (Some (JSON_of d)) \<Rightarrow> urls d | _ \<Rightarrow> [])"


definition unique_records :: "url_record list \<Rightarrow> bool" where
  "unique_records items \<longleftrightarrow> distinct (map code items) \<and> distinct (map original items)"

definition unique_store :: "world \<Rightarrow> bool" where
  "unique_store w = unique_records (stored_urls w)"

text \<open>The data file holds the store \<open>d\<close> and nobody holds the lock.\<close>

definition readable :: "world \<Rightarrow> db \<Rightarrow> bool" where
  "readable w d \<longleftrightarrow> fs w = Dir (Some (JSON_of d)) \<and> \<not> lock_held w"

definition healthy :: "world \<Rightarrow> db \<Rightarrow> bool" where
  "healthy w d \<longleftrightarrow> readable w d \<and> write_ok w"

text \<open>\<open>k\<close> calls \<^verbatim>\<open>await registerClick(c)\<close> one after the other; an exception ends the sequence.\<close>

fun registerClick_times :: "nat \<Rightarrow> string \<Rightarrow> world \<Rightarrow> (error + unit) \<times> world" where
  "registerClick_times 0 c w = (Inr (), w)"
| "registerClick_times (Suc k) c w =
     (case registerClick c w of
        (Inl e, w1) \<Rightarrow> (Inl e, w1)
      | (Inr _, w1) \<Rightarrow> registerClick_times k c w1)"

text \<open>
  The specification's reading of a mutating operation, as a property of the events it
  causes: the lock is acquired once, before the file is read, and is not released before
  the file has been written.
\<close>

definition single_critical_section :: "event list \<Rightarrow> bool" where
  "single_critical_section evs \<longleftrightarrow>
     length (filter (\<lambda>e. e = Lock_acquired) evs) = 1
     \<and> list_all (\<lambda>e. e \<noteq> Read_file) (takeWhile (\<lambda>e. e \<noteq> Lock_acquired) evs)
     \<and> list_all (\<lambda>e. e \<noteq> Lock_released) (takeWhile (\<lambda>e. e \<noteq> Wrote_file) evs)"

subsection \<open>Example states\<close>

definition link_a :: url_record where
  "link_a = \<lparr>original = ''https://example.com/'', short = ''https://sho.rt/r/ab12cd'',
              code = ''ab12cd'', createdAt = ''2024-01-01T00:00:00.000Z'', clicks = Some 0\<rparr>"

text \<open>The same URL and the same code again, saved a day later.\<close>

definition link_a_again :: url_record where
  "link_a_again = \<lparr>original = ''https://example.com/'', short = ''https://sho.rt/r/ab12cd'',
              code = ''ab12cd'', createdAt = ''2024-01-02T00:00:00.000Z'', clicks = Some 0\<rparr>"

definition link_b :: url_record where
  "link_b = \<lparr>original = ''https://isabelle.in.tum.de/'', short = ''https://sho.rt/r/zz9xy0'',
              code = ''zz9xy0'', createdAt = ''2024-01-03T00:00:00.000Z'', clicks = Some 0\<rparr>"


definition store_a :: db where
  "store_a = \<lparr>urls = [link_a], codes = [''ab12cd'' \<mapsto> ''https://example.com/'']\<rparr>"

definition store_baa :: db where
  "store_baa = \<lparr>urls = [link_b, link_a, link_a_again],
                 codes = [''zz9xy0'' \<mapsto> ''https://isabelle.in.tum.de/'',
                          ''ab12cd'' \<mapsto> ''https://example.com/'']\<rparr>"

text \<open>A working file system whose data file holds the given text, with the lock free.\<close>

definition world_with :: "file_text option \<Rightarrow> world" where
  "world_with t = \<lparr>fs = Dir t, lock_held = False, mkdir_ok = True, write_ok = True, log = []\<rparr>"

text \<open>Before the first start: no directory \<^verbatim>\<open>data\<close> yet.\<close>

definition first_start :: world where
  "first_start = \<lparr>fs = NoDir, lock_held = False, mkdir_ok = True, write_ok = True, log = []\<rparr>"

section \<open>Properties\<close>

subsection \<open>The primitives on a store that can be read and written\<close>

lemma unlock_simps:
  "fs (unlock w) = fs w" "lock_held (unlock w) = False" "write_ok (unlock w) = write_ok w"
  "mkdir_ok (unlock w) = mkdir_ok w" "log (unlock w) = log w @ [Lock_released]"
  by (simp_all add: unlock_def emit_def)

lemma readDB_lock_free: "lock_held (snd (readDB w)) = False"
  by (simp add: readDB_def unlock_simps split: prod.splits sum.splits)

lemma writeDB_lock_free: "lock_held (snd (writeDB d w)) = False"
  by (simp add: writeDB_def unlock_simps split: prod.splits sum.splits)

lemma readDB_frame:
  "fs (snd (readDB w)) = fs w" "write_ok (snd (readDB w)) = write_ok w"
  "mkdir_ok (snd (readDB w)) = mkdir_ok w"
  by (auto simp add: readDB_def unlock_simps lock_def fs_readFile_def emit_def
      split: prod.splits sum.splits data_dir.splits option.splits if_splits)

lemma readDB_readable:
  "readable w d \<Longrightarrow>
   readDB w = (Inr d, w\<lparr>lock_held := False, log := log w @ [Lock_acquired, Read_file, Lock_released]\<rparr>)"
  by (simp add: readable_def readDB_def lock_def fs_readFile_def emit_def unlock_def JSON_parse_def)

lemma writeDB_ok:
  "fs w = Dir x \<Longrightarrow> \<not> lock_held w \<Longrightarrow> write_ok w \<Longrightarrow>
   writeDB d w = (Inr (), w\<lparr>fs := Dir (Some (JSON_of d)), lock_held := False,
      log := log w @ [Lock_acquired, Wrote_file, Lock_released]\<rparr>)"
  by (simp add: writeDB_def lock_def fs_writeFile_def emit_def unlock_def JSON_stringify_def)

lemma writeDB_fs:
  "fs (snd (writeDB d w)) = fs w \<or> fs (snd (writeDB d w)) = Dir (Some (JSON_of d))"
  by (auto simp add: writeDB_def unlock_simps lock_def fs_writeFile_def emit_def JSON_stringify_def
      split: prod.splits sum.splits data_dir.splits option.splits if_splits)

lemma saveUrl_healthy:
  "healthy w d \<Longrightarrow>
   saveUrl u w = (Inr u, w\<lparr>fs := Dir (Some (JSON_of (d\<lparr>urls := urls d @ [u],
        codes := js_set (codes d) (code u) (original u)\<rparr>))), lock_held := False,
      log := log w @ [Lock_acquired, Read_file, Lock_released, Lock_acquired, Wrote_file, Lock_released]\<rparr>)"
  by (simp add: healthy_def saveUrl_def readDB_readable writeDB_ok[where x="Some (JSON_of d)"] readable_def)

lemma find_first:
  "list_all (\<lambda>x. \<not> P x) xs \<Longrightarrow> P r \<Longrightarrow> find P (xs @ r # ys) = Some r"
  by (induction xs) auto

lemma find_append_new:
  "find P xs = None \<Longrightarrow> P x \<Longrightarrow> find P (xs @ [x]) = Some x"
  by (induction xs) (auto split: if_splits)

lemma click_first_split:
  "list_all (\<lambda>x. code x \<noteq> c) xs \<Longrightarrow> code r = c \<Longrightarrow>
   click_first c (xs @ r # ys) = xs @ click r # ys"
  by (induction xs) auto

lemma click_first_code: "map code (click_first c xs) = map code xs"
  by (induction xs) (auto simp: click_def)

lemma click_first_original: "map original (click_first c xs) = map original xs"
  by (induction xs) (auto simp: click_def)

lemma registerClick_found:
  assumes "healthy w d" "urls d = xs @ r # ys" "list_all (\<lambda>x. code x \<noteq> c) xs" "code r = c"
  shows "registerClick c w = (Inr (), w\<lparr>fs := Dir (Some (JSON_of (d\<lparr>urls := xs @ click r # ys\<rparr>))),
      lock_held := False,
      log := log w @ [Lock_acquired, Read_file, Lock_released, Lock_acquired, Wrote_file, Lock_released]\<rparr>)"
proof -
  have f: "find (\<lambda>item. code item = c) (urls d) = Some r"
    using assms(2-4) find_first[of "\<lambda>item. code item = c" xs r ys] by simp
  have cf: "click_first c (urls d) = xs @ click r # ys"
    using assms(2-4) click_first_split by simp
  show ?thesis
    using assms(1) f cf
    by (simp add: healthy_def registerClick_def readDB_readable
        writeDB_ok[where x="Some (JSON_of d)"] readable_def)
qed

lemma registerClick_unknown:
  assumes "readable w d" "find (\<lambda>item. code item = c) (urls d) = None"
  shows "registerClick c w = (Inr (), w\<lparr>lock_held := False,
      log := log w @ [Lock_acquired, Read_file, Lock_released]\<rparr>)"
  using assms by (simp add: registerClick_def readDB_readable)

subsection \<open>Counting clicks\<close>

text \<open>From \<open>2^53\<close> on, adding 1 to the number changes nothing.\<close>

lemma js_add1_saturates: "n \<le> 2 ^ 53 \<Longrightarrow> js_add1 n = min (Suc n) (2 ^ 53)"
  by (auto simp add: js_add1_def)

lemma registerClick_times_saturates:
  assumes "healthy w d" "urls d = xs @ r # ys" "list_all (\<lambda>x. code x \<noteq> c) xs" "code r = c"
    "clicks r = Some n" "n \<le> 2 ^ 53"
  shows "fst (registerClick_times k c w) = Inr ()
       \<and> fs (snd (registerClick_times k c w)) =
           Dir (Some (JSON_of (d\<lparr>urls := xs @ r\<lparr>clicks := Some (min (n + k) (2 ^ 53))\<rparr> # ys\<rparr>)))"
  using assms
proof (induction k arbitrary: w d r n)
  case 0
  then show ?case by (simp add: healthy_def readable_def)
next
  case (Suc k)
  let ?m = "min (Suc n) (2 ^ 53)"
  let ?r' = "click r"
  let ?d' = "d\<lparr>urls := xs @ ?r' # ys\<rparr>"
  let ?w' = "w\<lparr>fs := Dir (Some (JSON_of ?d')), lock_held := False,
      log := log w @ [Lock_acquired, Read_file, Lock_released, Lock_acquired, Wrote_file, Lock_released]\<rparr>"
  have step: "registerClick c w = (Inr (), ?w')"
    using registerClick_found[OF Suc.prems(1-4)] .
  have r': "?r' = r\<lparr>clicks := Some ?m\<rparr>"
    using Suc.prems(5,6) by (simp add: click_def js_add1_saturates)
  have h': "healthy ?w' ?d'" using Suc.prems(1) by (simp add: healthy_def readable_def)
  have IH: "fst (registerClick_times k c ?w') = Inr ()
       \<and> fs (snd (registerClick_times k c ?w')) =
           Dir (Some (JSON_of (?d'\<lparr>urls := xs @ ?r'\<lparr>clicks := Some (min (?m + k) (2 ^ 53))\<rparr> # ys\<rparr>)))"
    by (rule Suc.IH[OF h']) (use Suc.prems r' in simp_all)
  have m: "min (?m + k) (2 ^ 53) = min (n + Suc k) ((2::nat) ^ 53)" by simp
  show ?case using IH step r' unfolding m by simp
qed

subsection \<open>What each operation can do to the records in the file\<close>

lemma stored_urls_readDB: "stored_urls (snd (readDB w)) = stored_urls w"
  by (simp add: stored_urls_def readDB_frame)

lemma stored_urls_writeDB:
  "stored_urls (snd (writeDB d w)) = stored_urls w \<or> stored_urls (snd (writeDB d w)) = urls d"
  using writeDB_fs[of d w] by (auto simp add: stored_urls_def)

lemma readDB_result:
  "readDB w = (Inr d, w1) \<Longrightarrow> urls d = stored_urls w"
  by (auto simp add: readDB_def lock_def fs_readFile_def JSON_parse_def JSON_stringify_def
      empty_db_def stored_urls_def emit_def unlock_def
      split: data_dir.splits option.splits if_splits file_text.splits)

lemma stored_urls_findUrl: "stored_urls (snd (findUrl u w)) = stored_urls w"
  using stored_urls_readDB[of w]
  by (cases "readDB w"; cases "fst (readDB w)") (simp_all add: findUrl_def)

lemma stored_urls_findCode: "stored_urls (snd (findCode c w)) = stored_urls w"
  using stored_urls_readDB[of w]
  by (cases "readDB w"; cases "fst (readDB w)") (simp_all add: findCode_def)

lemma stored_urls_initDB: "stored_urls (snd (initDB w)) = stored_urls w"
  by (auto simp add: initDB_def fs_mkdir_def fs_access_def fs_writeFile_def emit_def
      JSON_stringify_def stored_urls_def empty_db_def split: data_dir.splits option.splits)

lemma stored_urls_registerClick:
  "stored_urls (snd (registerClick c w)) = stored_urls w
   \<or> stored_urls (snd (registerClick c w)) = click_first c (stored_urls w)"
proof -
  obtain res w1 where rd: "readDB w = (res, w1)" by (cases "readDB w")
  have s1: "stored_urls w1 = stored_urls w" using stored_urls_readDB[of w] rd by simp
  show ?thesis
  proof (cases res)
    case (Inl e)
    then show ?thesis using s1 by (simp add: registerClick_def rd)
  next
    case (Inr d0)
    have u: "urls d0 = stored_urls w" using readDB_result rd Inr by simp
    let ?d = "d0\<lparr>urls := click_first c (urls d0)\<rparr>"
    have w2: "stored_urls (snd (writeDB ?d w1)) = stored_urls w
        \<or> stored_urls (snd (writeDB ?d w1)) = click_first c (stored_urls w)"
      using stored_urls_writeDB[of ?d w1] s1 u by simp
    have "snd (registerClick c w) = w1 \<or> snd (registerClick c w) = snd (writeDB ?d w1)"
      using Inr by (cases "find (\<lambda>item. code item = c) (urls d0)")
        (simp_all add: registerClick_def rd)
    then show ?thesis using w2 s1 by auto
  qed
qed

lemma stored_urls_saveUrl:
  "stored_urls (snd (saveUrl u w)) = stored_urls w
   \<or> stored_urls (snd (saveUrl u w)) = stored_urls w @ [u]"
proof -
  obtain res w1 where rd: "readDB w = (res, w1)" by (cases "readDB w")
  have s1: "stored_urls w1 = stored_urls w" using stored_urls_readDB[of w] rd by simp
  show ?thesis
  proof (cases res)
    case (Inl e)
    then show ?thesis using s1 by (simp add: saveUrl_def rd)
  next
    case (Inr d0)
    have u: "urls d0 = stored_urls w" using readDB_result rd Inr by simp
    let ?d = "d0\<lparr>urls := urls d0 @ [u], codes := js_set (codes d0) (code u) (original u)\<rparr>"
    obtain res2 w2 where wd: "writeDB ?d w1 = (res2, w2)" by (cases "writeDB ?d w1")
    have w2: "stored_urls w2 = stored_urls w \<or> stored_urls w2 = stored_urls w @ [u]"
      using stored_urls_writeDB[of ?d w1] wd s1 u by simp
    have "snd (saveUrl u w) = w2"
      using Inr by (cases res2) (simp_all add: saveUrl_def rd wd)
    then show ?thesis using w2 by simp
  qed
qed

lemma fresh_not_in:
  "list_all (\<lambda>item. original item \<noteq> a \<and> code item \<noteq> b) xs \<Longrightarrow>
   a \<notin> set (map original xs) \<and> b \<notin> set (map code xs)"
  by (induction xs) auto

subsection \<open>The handler on a store that can be read and written\<close>

text \<open>Each call of the storage leaves such a store behind.\<close>

lemma healthy_stored: "healthy w d \<Longrightarrow> stored_urls w = urls d"
  by (simp add: healthy_def readable_def stored_urls_def)

lemma findUrl_healthy:
  assumes "healthy w d"
  shows "\<exists>w'. findUrl u w = (Inr (find (\<lambda>item. original item = u) (urls d)), w') \<and> healthy w' d"
  using assms by (simp add: healthy_def findUrl_def readDB_readable readable_def)

lemma findCode_healthy:
  assumes "healthy w d"
  shows "\<exists>w'. findCode c w = (Inr (js_get (codes d) c), w') \<and> healthy w' d"
  using assms by (simp add: healthy_def findCode_def readDB_readable readable_def)

lemma saveUrl_healthy_next:
  assumes "healthy w d"
  shows "\<exists>w'. saveUrl u w = (Inr u, w')
      \<and> healthy w' (d\<lparr>urls := urls d @ [u], codes := js_set (codes d) (code u) (original u)\<rparr>)"
  using assms by (simp add: saveUrl_healthy[OF assms] healthy_def readable_def)

lemma draw_code_picks:
  assumes "healthy w d" "list_all (\<lambda>t. truthy (js_get (codes d) (generateCode t))) taken"
    "\<not> truthy (js_get (codes d) (generateCode r))"
  shows "\<exists>w'. draw_code (taken @ r # rest) w = (Some (Inr (generateCode r)), w') \<and> healthy w' d"
  using assms
proof (induction taken arbitrary: w)
  case Nil
  obtain w' where "findCode (generateCode r) w = (Inr (js_get (codes d) (generateCode r)), w')"
    "healthy w' d"
    using findCode_healthy[OF Nil(1)] by blast
  then show ?case using Nil(3) by simp
next
  case (Cons t taken)
  obtain w' where f: "findCode (generateCode t) w = (Inr (js_get (codes d) (generateCode t)), w')"
    and h: "healthy w' d"
    using findCode_healthy[OF Cons.prems(1)] by blast
  have tk: "truthy (js_get (codes d) (generateCode t))" using Cons.prems(2) by simp
  have rest: "list_all (\<lambda>t. truthy (js_get (codes d) (generateCode t))) taken"
    using Cons.prems(2) by simp
  show ?case
    using Cons.IH[OF h rest Cons.prems(3)] f tk by simp
qed

text \<open>
  A URL that is stored already is answered from the first record that has it, and the file
  stays as it is.
\<close>

lemma post_shorten_existing:
  assumes "healthy w d" and "url \<noteq> []" and "validateUrl url = Inr v"
    and "find (\<lambda>item. original item = v) (urls d) = Some x"
  shows "fst (post_shorten validateUrl B now draws (Some url) w) =
           Some (200, Link (original x) (short x) (code x))
       \<and> fs (snd (post_shorten validateUrl B now draws (Some url) w)) = fs w"
proof -
  obtain w1 where f1: "findUrl v w = (Inr (Some x), w1)" and h1: "healthy w1 d"
    using findUrl_healthy[OF assms(1), of v] assms(4) by auto
  have "fs w1 = fs w" using h1 assms(1) by (simp add: healthy_def readable_def)
  then show ?thesis using assms(2,3) f1 by (simp add: post_shorten_def)
qed

subsection \<open>The properties of the specification\<close>




text \<open>
  C2, as stated, fails. After the first start and one \<^verbatim>\<open>saveUrl\<close> the codes and the URLs
  of the store are unique; a second \<^verbatim>\<open>saveUrl\<close> of the same record is stored as well and
  they are not unique any more.
\<close>

theorem uniqueness_counterexample:
  "unique_store (snd (saveUrl link_a (snd (initDB first_start))))
   \<and> \<not> unique_store (snd (saveUrl link_a (snd (saveUrl link_a (snd (initDB first_start))))))"
  by (simp add: unique_store_def unique_records_def stored_urls_def saveUrl_def readDB_def
      writeDB_def lock_def unlock_def emit_def fs_readFile_def fs_writeFile_def JSON_parse_def
      JSON_stringify_def initDB_def fs_mkdir_def fs_access_def first_start_def empty_db_def
      link_a_def js_set_def)

text \<open>
  C2, amended. From a store with unique codes and unique URLs, \<^verbatim>\<open>initDB\<close>, \<^verbatim>\<open>findUrl\<close>,
  \<^verbatim>\<open>findCode\<close> and \<^verbatim>\<open>registerClick\<close> lead to such a store again, in every state of the
  lock and the file system; \<^verbatim>\<open>saveUrl\<close> does so when no stored record has the URL or the
  code of the record it is given.
\<close>

theorem uniqueness_preserved:
  assumes "unique_store w"
  shows "unique_store (snd (initDB w))
       \<and> unique_store (snd (findUrl x w))
       \<and> unique_store (snd (findCode c w))
       \<and> unique_store (snd (registerClick c w))
       \<and> (list_all (\<lambda>item. original item \<noteq> original u \<and> code item \<noteq> code u) (stored_urls w)
            \<longrightarrow> unique_store (snd (saveUrl u w)))"
proof -
  have rc: "unique_store (snd (registerClick c w))"
    using assms stored_urls_registerClick[of c w]
    by (auto simp add: unique_store_def unique_records_def click_first_code click_first_original)
  have sv: "unique_store (snd (saveUrl u w))"
    if "list_all (\<lambda>item. original item \<noteq> original u \<and> code item \<noteq> code u) (stored_urls w)"
  proof -
    have fr: "original u \<notin> set (map original (stored_urls w))
        \<and> code u \<notin> set (map code (stored_urls w))"
      using that by (rule fresh_not_in)
    have "unique_records (stored_urls w @ [u])"
      using assms fr by (simp add: unique_store_def unique_records_def)
    then show ?thesis
      using assms stored_urls_saveUrl[of u w] by (auto simp add: unique_store_def)
  qed
  show ?thesis
    using assms rc sv
    by (simp add: unique_store_def stored_urls_initDB stored_urls_findUrl stored_urls_findCode)
qed

text \<open>
  The store that holds \<open>link_a\<close>, and \<open>link_b\<close> as the new record.
\<close>

theorem uniqueness_preserved_witness:
  "unique_store (world_with (Some (JSON_of store_a)))
   \<and> list_all (\<lambda>item. original item \<noteq> original link_b \<and> code item \<noteq> code link_b)
        (stored_urls (world_with (Some (JSON_of store_a))))
   \<and> unique_store (snd (saveUrl link_b (world_with (Some (JSON_of store_a)))))
   \<and> unique_store (snd (registerClick ''ab12cd'' (world_with (Some (JSON_of store_a)))))
   \<and> unique_store (snd (findUrl ''https://example.com/'' (world_with (Some (JSON_of store_a)))))
   \<and> unique_store (snd (findCode ''ab12cd'' (world_with (Some (JSON_of store_a)))))
   \<and> unique_store (snd (initDB (world_with (Some (JSON_of store_a)))))"
proof -
  have s: "stored_urls (world_with (Some (JSON_of store_a))) = [link_a]"
    by (simp add: stored_urls_def world_with_def store_a_def)
  have h: "unique_store (world_with (Some (JSON_of store_a)))"
    by (simp add: unique_store_def unique_records_def s)
  have f: "list_all (\<lambda>item. original item \<noteq> original link_b \<and> code item \<noteq> code link_b)
        (stored_urls (world_with (Some (JSON_of store_a))))"
    by (simp add: s link_a_def link_b_def)
  show ?thesis
    using uniqueness_preserved[OF h, of "''https://example.com/''" "''ab12cd''" link_b] h f
    by simp
qed

text \<open>
  C3, as stated, fails. Only a failure of \<^verbatim>\<open>fs.readFile\<close> is caught; \<^verbatim>\<open>JSON.parse\<close> stands
  outside that \<^verbatim>\<open>catch\<close>. With a data file whose text is not JSON, \<^verbatim>\<open>findCode\<close> throws
  the SyntaxError.
\<close>

theorem findCode_corrupt_counterexample:
  "fst (findCode ''ab12cd'' (world_with (Some (Not_JSON ''{ urls: ['')))) = Inl SyntaxError"
  by (simp add: findCode_def readDB_def lock_def unlock_def emit_def fs_readFile_def
      JSON_parse_def world_with_def)

text \<open>
  C3, amended. With the lock free: when the data file cannot be read (it is missing), the
  empty store stands in for it and \<^verbatim>\<open>findCode\<close> returns what the empty \<^verbatim>\<open>codes\<close> object
  has for the code, which is \<^verbatim>\<open>undefined\<close> unless the code names a property of
  \<^verbatim>\<open>Object.prototype\<close>; when the file is read and its text is not JSON, \<^verbatim>\<open>findCode\<close>
  throws the SyntaxError. Either way the file is left as it was and the lock is free
  afterwards.
\<close>

theorem findCode_unreadable_or_corrupt:
  assumes "\<not> lock_held w"
  shows "(fs w = Dir None \<longrightarrow>
            fst (findCode c w) =
              Inr (if c \<in> set object_prototype_names then Inherited c else Undefined))
       \<and> (fs w = Dir (Some (Not_JSON t)) \<longrightarrow> fst (findCode c w) = Inl SyntaxError)
       \<and> fs (snd (findCode c w)) = fs w
       \<and> \<not> lock_held (snd (findCode c w))"
proof -
  have a: "fst (findCode c w) =
      Inr (if c \<in> set object_prototype_names then Inherited c else Undefined)"
    if "fs w = Dir None"
    using that assms
    by (simp add: findCode_def readDB_def lock_def unlock_def emit_def fs_readFile_def
        JSON_parse_def JSON_stringify_def empty_db_def js_get_def)
  have b: "fst (findCode c w) = Inl SyntaxError" if "fs w = Dir (Some (Not_JSON t))"
    using that assms
    by (simp add: findCode_def readDB_def lock_def unlock_def emit_def fs_readFile_def
        JSON_parse_def)
  obtain res w1 where rd: "readDB w = (res, w1)" by (cases "readDB w")
  have w1: "fs w1 = fs w" "lock_held w1 = False"
    using readDB_frame(1)[of w] readDB_lock_free[of w] rd by simp_all
  have c: "snd (findCode c w) = w1"
    by (cases res) (simp_all add: findCode_def rd)
  show ?thesis using a b c w1 by simp
qed

text \<open>
  A directory without the data file, and a data file that is not JSON.
\<close>

theorem findCode_unreadable_or_corrupt_witness:
  "\<not> lock_held (world_with None) \<and> fs (world_with None) = Dir None
   \<and> fst (findCode ''ab12cd'' (world_with None)) = Inr Undefined
   \<and> fst (findCode ''constructor'' (world_with None)) = Inr (Inherited ''constructor'')
   \<and> fs (snd (findCode ''ab12cd'' (world_with None))) = Dir None
   \<and> \<not> lock_held (world_with (Some (Not_JSON ''{ urls: ['')))
   \<and> fs (world_with (Some (Not_JSON ''{ urls: [''))) = Dir (Some (Not_JSON ''{ urls: [''))
   \<and> fst (findCode ''ab12cd'' (world_with (Some (Not_JSON ''{ urls: ['')))) = Inl SyntaxError
   \<and> fs (snd (findCode ''ab12cd'' (world_with (Some (Not_JSON ''{ urls: [''))))) =
        Dir (Some (Not_JSON ''{ urls: [''))
   \<and> \<not> lock_held (snd (findCode ''ab12cd'' (world_with (Some (Not_JSON ''{ urls: [''))))) "
proof -
  have h1: "\<not> lock_held (world_with None)" by (simp add: world_with_def)
  have h2: "\<not> lock_held (world_with (Some (Not_JSON ''{ urls: ['')))" by (simp add: world_with_def)
  have f1: "fs (world_with None) = Dir None" by (simp add: world_with_def)
  have f2: "fs (world_with (Some (Not_JSON ''{ urls: [''))) = Dir (Some (Not_JSON ''{ urls: [''))"
    by (simp add: world_with_def)
  show ?thesis
    using findCode_unreadable_or_corrupt[OF h1, of "''ab12cd''"]
      findCode_unreadable_or_corrupt[OF h1, of "''constructor''"]
      findCode_unreadable_or_corrupt[OF h2, where c="''ab12cd''" and t="''{ urls: [''"]
      h1 h2 f1 f2
    by (simp add: object_prototype_names_def)
qed

text \<open>
  C4, as stated, fails. \<^verbatim>\<open>saveUrl\<close> and \<^verbatim>\<open>registerClick\<close> call \<^verbatim>\<open>readDB\<close> and then
  \<^verbatim>\<open>writeDB\<close>, and each of the two locks and unlocks on its own: the lock is released
  after the read and taken again for the write.
\<close>

theorem saveUrl_two_sections_counterexample:
  "log (snd (saveUrl link_b (world_with (Some (JSON_of store_a))))) =
     [Lock_acquired, Read_file, Lock_released, Lock_acquired, Wrote_file, Lock_released]
   \<and> \<not> single_critical_section (log (snd (saveUrl link_b (world_with (Some (JSON_of store_a))))))
   \<and> log (snd (registerClick ''ab12cd'' (world_with (Some (JSON_of store_a))))) =
     [Lock_acquired, Read_file, Lock_released, Lock_acquired, Wrote_file, Lock_released]
   \<and> \<not> single_critical_section
         (log (snd (registerClick ''ab12cd'' (world_with (Some (JSON_of store_a))))))"
  by (simp add: single_critical_section_def saveUrl_def registerClick_def readDB_def writeDB_def
      lock_def unlock_def emit_def fs_readFile_def fs_writeFile_def JSON_parse_def
      JSON_stringify_def world_with_def store_a_def link_a_def)

text \<open>
  C4, amended. On a store that can be read and written, \<^verbatim>\<open>saveUrl\<close>, and
  \<^verbatim>\<open>registerClick\<close> on a code that some record has, acquire and release the lock twice:
  once around the read and once around the write, and the lock is free in between, while
  the store is changed in memory. \<^verbatim>\<open>registerClick\<close> on a code that no record has locks
  once, around the read, and writes nothing.
\<close>

theorem mutations_lock_twice:
  assumes "healthy w d"
  shows "log (snd (saveUrl u w)) =
           log w @ [Lock_acquired, Read_file, Lock_released, Lock_acquired, Wrote_file, Lock_released]
       \<and> (find (\<lambda>item. code item = c) (urls d) \<noteq> None \<longrightarrow>
            log (snd (registerClick c w)) =
              log w @ [Lock_acquired, Read_file, Lock_released, Lock_acquired, Wrote_file, Lock_released])
       \<and> (find (\<lambda>item. code item = c) (urls d) = None \<longrightarrow>
            log (snd (registerClick c w)) = log w @ [Lock_acquired, Read_file, Lock_released])
       \<and> \<not> lock_held (snd (readDB w))"
proof -
  have r: "readable w d" using assms by (simp add: healthy_def)
  have s: "log (snd (saveUrl u w)) =
           log w @ [Lock_acquired, Read_file, Lock_released, Lock_acquired, Wrote_file, Lock_released]"
    by (simp add: saveUrl_healthy[OF assms])
  have k: "log (snd (registerClick c w)) =
           log w @ [Lock_acquired, Read_file, Lock_released, Lock_acquired, Wrote_file, Lock_released]"
    if "find (\<lambda>item. code item = c) (urls d) \<noteq> None"
    using that assms
    by (auto simp add: healthy_def registerClick_def readDB_readable readable_def
        writeDB_ok[where x="Some (JSON_of d)"])
  have n: "log (snd (registerClick c w)) = log w @ [Lock_acquired, Read_file, Lock_released]"
    if "find (\<lambda>item. code item = c) (urls d) = None"
    by (simp add: registerClick_unknown[OF r that])
  show ?thesis using s k n readDB_lock_free[of w] by simp
qed

text \<open>
  The store that holds \<open>link_a\<close>: its code is known, the code of \<open>link_b\<close> is not.
\<close>

theorem mutations_lock_twice_witness:
  "healthy (world_with (Some (JSON_of store_a))) store_a
   \<and> find (\<lambda>item. code item = ''ab12cd'') (urls store_a) \<noteq> None
   \<and> find (\<lambda>item. code item = ''zz9xy0'') (urls store_a) = None
   \<and> log (snd (saveUrl link_b (world_with (Some (JSON_of store_a))))) =
       [Lock_acquired, Read_file, Lock_released, Lock_acquired, Wrote_file, Lock_released]
   \<and> log (snd (registerClick ''ab12cd'' (world_with (Some (JSON_of store_a))))) =
       [Lock_acquired, Read_file, Lock_released, Lock_acquired, Wrote_file, Lock_released]
   \<and> log (snd (registerClick ''zz9xy0'' (world_with (Some (JSON_of store_a))))) =
       [Lock_acquired, Read_file, Lock_released]"
proof -
  have h: "healthy (world_with (Some (JSON_of store_a))) store_a"
    by (simp add: healthy_def readable_def world_with_def)
  have f1: "find (\<lambda>item. code item = ''ab12cd'') (urls store_a) \<noteq> None"
    by (simp add: store_a_def link_a_def)
  have f2: "find (\<lambda>item. code item = ''zz9xy0'') (urls store_a) = None"
    by (simp add: store_a_def link_a_def)
  have l: "log (world_with (Some (JSON_of store_a))) = []" by (simp add: world_with_def)
  show ?thesis
    using mutations_lock_twice[OF h, of link_b "''ab12cd''"]
      mutations_lock_twice[OF h, of link_b "''zz9xy0''"] h f1 f2 l
    by simp
qed

text \<open>
  What the two sections allow: two calls of \<^verbatim>\<open>saveUrl\<close> that both read before either
  writes. Both writes succeed, and the second replaces the first: the record \<open>a\<close> is lost.
\<close>

lemma interleaved_saves_lose_a_record:
  assumes "healthy w d"
  shows "\<exists>w1 w2 w3 w4.
           readDB w = (Inr d, w1) \<and> readDB w1 = (Inr d, w2)
         \<and> writeDB (d\<lparr>urls := urls d @ [a], codes := js_set (codes d) (code a) (original a)\<rparr>) w2
             = (Inr (), w3)
         \<and> writeDB (d\<lparr>urls := urls d @ [b], codes := js_set (codes d) (code b) (original b)\<rparr>) w3
             = (Inr (), w4)
         \<and> stored_urls w3 = urls d @ [a] \<and> stored_urls w4 = urls d @ [b]"
proof -
  let ?w1 = "w\<lparr>lock_held := False, log := log w @ [Lock_acquired, Read_file, Lock_released]\<rparr>"
  let ?w2 = "?w1\<lparr>lock_held := False, log := log ?w1 @ [Lock_acquired, Read_file, Lock_released]\<rparr>"
  have r0: "readable w d" using assms by (simp add: healthy_def)
  have r1: "readable ?w1 d" using r0 by (simp add: readable_def)
  have e1: "readDB w = (Inr d, ?w1)" by (rule readDB_readable[OF r0])
  have e2: "readDB ?w1 = (Inr d, ?w2)" by (rule readDB_readable[OF r1])
  let ?da = "d\<lparr>urls := urls d @ [a], codes := js_set (codes d) (code a) (original a)\<rparr>"
  let ?db = "d\<lparr>urls := urls d @ [b], codes := js_set (codes d) (code b) (original b)\<rparr>"
  let ?w3 = "?w2\<lparr>fs := Dir (Some (JSON_of ?da)), lock_held := False,
      log := log ?w2 @ [Lock_acquired, Wrote_file, Lock_released]\<rparr>"
  let ?w4 = "?w3\<lparr>fs := Dir (Some (JSON_of ?db)), lock_held := False,
      log := log ?w3 @ [Lock_acquired, Wrote_file, Lock_released]\<rparr>"
  have e3: "writeDB ?da ?w2 = (Inr (), ?w3)"
    using assms by (intro writeDB_ok[where x="Some (JSON_of d)"]) (simp_all add: healthy_def readable_def)
  have e4: "writeDB ?db ?w3 = (Inr (), ?w4)"
    using assms by (intro writeDB_ok[where x="Some (JSON_of ?da)"]) (simp_all add: healthy_def)
  have s3: "stored_urls ?w3 = urls d @ [a]" by (simp add: stored_urls_def)
  have s4: "stored_urls ?w4 = urls d @ [b]" by (simp add: stored_urls_def)
  show ?thesis using e1 e2 e3 e4 s3 s4 by blast
qed

text \<open>
  C5. The handler's comment promises a random code of 6 characters. For the random
  number one half the text is \<^verbatim>\<open>0.i\<close> and the code is the single character \<^verbatim>\<open>i\<close>; for
  zero the code is empty.
\<close>

theorem generateCode_short:
  "rendering36 ''0.i'' \<and> generateCode ''0.i'' = ''i'' \<and> length (generateCode ''0.i'') \<noteq> 6
   \<and> rendering36 ''0'' \<and> generateCode ''0'' = ''''"
  by (simp add: generateCode_def substring_def rendering36_def base36_def)

text \<open>
  The code is the first six digits of the fraction, or all of them when there are fewer.
\<close>

lemma generateCode_bounds:
  assumes "rendering36 s"
  shows "length (generateCode s) = min 6 (length s - 2) \<and> list_all base36 (generateCode s)"
proof -
  have len: "length (generateCode s) = min 6 (length s - 2)"
    by (auto simp add: generateCode_def substring_def Let_def min_def max_def)
  have al: "list_all base36 (generateCode s)"
  proof (cases "s = ''0''")
    case True
    then show ?thesis by (simp add: generateCode_def substring_def)
  next
    case False
    then have d: "list_all base36 (drop 2 s)" and l: "2 < length s"
      using assms by (auto simp add: rendering36_def)
    have g: "generateCode s = take 6 (drop 2 s)"
      using l by (auto simp add: generateCode_def substring_def Let_def min_def max_def)
    show ?thesis unfolding g using d by (auto simp add: list_all_iff dest: in_set_takeD)
  qed
  show ?thesis using len al by simp
qed

text \<open>
  C6, as stated, fails in two places. In a store where two records have the code,
  \<^verbatim>\<open>registerClick\<close> counts on the first of them only: the second one, \<open>link_a_again\<close> with
  \<open>clicks = 0\<close>, still has \<open>clicks = 0\<close> after one call. And a counter that has reached
  \<open>2^53\<close> stays there: after \<open>2^53 + 1\<close> calls the record has \<open>clicks = 2^53\<close>.
\<close>

theorem registerClick_counterexample:
  "code link_a_again = ''ab12cd'' \<and> clicks link_a_again = Some 0
   \<and> stored_urls (world_with (Some (JSON_of store_baa))) = [link_b, link_a, link_a_again]
   \<and> stored_urls (snd (registerClick_times 1 ''ab12cd'' (world_with (Some (JSON_of store_baa))))) =
        [link_b, link_a\<lparr>clicks := Some 1\<rparr>, link_a_again]
   \<and> clicks link_a = Some 0
   \<and> stored_urls (snd (registerClick_times (2 ^ 53 + 1) ''ab12cd''
        (world_with (Some (JSON_of store_a))))) = [link_a\<lparr>clicks := Some (2 ^ 53)\<rparr>]"
proof -
  have h: "healthy (world_with (Some (JSON_of store_a))) store_a"
    by (simp add: healthy_def readable_def world_with_def)
  have p: "urls store_a = [] @ link_a # []" "list_all (\<lambda>x. code x \<noteq> ''ab12cd'') []"
    "code link_a = ''ab12cd''" "clicks link_a = Some 0" "(0::nat) \<le> 2 ^ 53"
    by (simp_all add: store_a_def link_a_def)
  have sat: "fs (snd (registerClick_times (2 ^ 53 + 1) ''ab12cd''
        (world_with (Some (JSON_of store_a))))) =
      Dir (Some (JSON_of (store_a\<lparr>urls := [] @ link_a\<lparr>clicks := Some (min (0 + (2 ^ 53 + 1)) (2 ^ 53))\<rparr> # []\<rparr>)))"
    using registerClick_times_saturates[OF h p, of "2 ^ 53 + 1"] by blast
  have h2: "healthy (world_with (Some (JSON_of store_baa))) store_baa"
    by (simp add: healthy_def readable_def world_with_def)
  have p2: "urls store_baa = [link_b] @ link_a # [link_a_again]"
    "list_all (\<lambda>x. code x \<noteq> ''ab12cd'') [link_b]"
    by (simp_all add: store_baa_def link_b_def)
  have dup: "fs (snd (registerClick_times 1 ''ab12cd'' (world_with (Some (JSON_of store_baa))))) =
      Dir (Some (JSON_of (store_baa\<lparr>urls := [link_b] @ link_a\<lparr>clicks := Some (min (0 + 1) (2 ^ 53))\<rparr> # [link_a_again]\<rparr>)))"
    using registerClick_times_saturates[OF h2 p2 p(3,4,5), of 1] by blast
  have s0: "stored_urls (world_with (Some (JSON_of store_baa))) = [link_b, link_a, link_a_again]"
    by (simp add: stored_urls_def world_with_def store_baa_def)
  have a: "code link_a_again = ''ab12cd''" "clicks link_a_again = Some 0"
    by (simp_all add: link_a_again_def)
  have sat': "stored_urls (snd (registerClick_times (2 ^ 53 + 1) ''ab12cd''
        (world_with (Some (JSON_of store_a))))) = [link_a\<lparr>clicks := Some (2 ^ 53)\<rparr>]"
    unfolding stored_urls_def sat by simp
  have dup': "stored_urls (snd (registerClick_times 1 ''ab12cd''
        (world_with (Some (JSON_of store_baa))))) = [link_b, link_a\<lparr>clicks := Some 1\<rparr>, link_a_again]"
    unfolding stored_urls_def dup by simp
  show ?thesis
    using a s0 p(4) sat' dup' by blast
qed

text \<open>
  C6, amended. On a store that can be read and written, let \<open>r\<close> be the record that
  \<^verbatim>\<open>registerClick\<close> finds for the code \<open>c\<close>, that is the first record with this code (the
  only one when codes are unique), and let its \<open>clicks\<close> be 0. Then \<open>K\<close> calls of
  \<^verbatim>\<open>registerClick(c)\<close>, one after the other, with \<open>K\<close> at most \<open>2^53\<close>, all succeed and leave
  a file in which this record has \<open>clicks = K\<close> and nothing else has changed. On a code that
  no record has, \<^verbatim>\<open>registerClick\<close> succeeds and leaves the file as it is.
\<close>

theorem registerClick_counts:
  assumes "healthy w d"
  shows "(urls d = xs @ r # ys \<and> list_all (\<lambda>x. code x \<noteq> c) xs \<and> code r = c
            \<and> clicks r = Some 0 \<and> K \<le> 2 ^ 53 \<longrightarrow>
          fst (registerClick_times K c w) = Inr ()
          \<and> fs (snd (registerClick_times K c w)) =
              Dir (Some (JSON_of (d\<lparr>urls := xs @ r\<lparr>clicks := Some K\<rparr> # ys\<rparr>))))
       \<and> (find (\<lambda>item. code item = c') (urls d) = None \<longrightarrow>
            fst (registerClick c' w) = Inr () \<and> fs (snd (registerClick c' w)) = fs w)"
proof -
  have a: "fst (registerClick_times K c w) = Inr ()
          \<and> fs (snd (registerClick_times K c w)) =
              Dir (Some (JSON_of (d\<lparr>urls := xs @ r\<lparr>clicks := Some K\<rparr> # ys\<rparr>)))"
    if "urls d = xs @ r # ys" "list_all (\<lambda>x. code x \<noteq> c) xs" "code r = c"
      "clicks r = Some 0" "K \<le> 2 ^ 53"
    using registerClick_times_saturates[OF assms that(1-4), of K] that(5) by simp
  have r: "readable w d" using assms by (simp add: healthy_def)
  have b: "fst (registerClick c' w) = Inr () \<and> fs (snd (registerClick c' w)) = fs w"
    if "find (\<lambda>item. code item = c') (urls d) = None"
    by (simp add: registerClick_unknown[OF r that])
  show ?thesis using a b by blast
qed

text \<open>
  Three clicks on the code of \<open>link_a\<close>, and one on a code that is not stored.
\<close>

theorem registerClick_counts_witness:
  "healthy (world_with (Some (JSON_of store_a))) store_a
   \<and> urls store_a = [] @ link_a # []
   \<and> list_all (\<lambda>x. code x \<noteq> ''ab12cd'') []
   \<and> code link_a = ''ab12cd'' \<and> clicks link_a = Some 0 \<and> (3::nat) \<le> 2 ^ 53
   \<and> fst (registerClick_times 3 ''ab12cd'' (world_with (Some (JSON_of store_a)))) = Inr ()
   \<and> fs (snd (registerClick_times 3 ''ab12cd'' (world_with (Some (JSON_of store_a))))) =
        Dir (Some (JSON_of (store_a\<lparr>urls := [link_a\<lparr>clicks := Some 3\<rparr>]\<rparr>)))
   \<and> find (\<lambda>item. code item = ''zz9xy0'') (urls store_a) = None
   \<and> fst (registerClick ''zz9xy0'' (world_with (Some (JSON_of store_a)))) = Inr ()
   \<and> fs (snd (registerClick ''zz9xy0'' (world_with (Some (JSON_of store_a))))) =
        Dir (Some (JSON_of store_a))"
proof -
  have h: "healthy (world_with (Some (JSON_of store_a))) store_a"
    by (simp add: healthy_def readable_def world_with_def)
  have p: "urls store_a = [] @ link_a # []" "code link_a = ''ab12cd''" "clicks link_a = Some 0"
    "find (\<lambda>item. code item = ''zz9xy0'') (urls store_a) = None"
    by (simp_all add: store_a_def link_a_def)
  have f: "fs (world_with (Some (JSON_of store_a))) = Dir (Some (JSON_of store_a))"
    by (simp add: world_with_def)
  show ?thesis
    using registerClick_counts[OF h, where xs="[]" and r=link_a and ys="[]" and c="''ab12cd''"
        and K=3 and c'="''zz9xy0''"] h p f
    by simp
qed

text \<open>
  C7. On a store that can be read and written, the handler is run twice, one run after the
  other, with the same valid URL, which is not stored yet; the first run draws codes that
  are taken and then one that is free. The first run answers 201 and the second 200, both
  with the same URL, short URL and code, and after the two runs the file holds the
  records it had before and one new record.
\<close>

theorem shorten_twice:
  assumes "healthy w d" and "url \<noteq> []" and "validateUrl url = Inr v"
    and "find (\<lambda>item. original item = v) (urls d) = None"
    and "list_all (\<lambda>t. truthy (js_get (codes d) (generateCode t))) taken"
    and "\<not> truthy (js_get (codes d) (generateCode r))"
  shows "fst (post_shorten validateUrl B now (taken @ r # rest) (Some url) w) =
           Some (201, Link v (B @ ''/r/'' @ generateCode r) (generateCode r))
       \<and> fst (post_shorten validateUrl B now' draws' (Some url)
               (snd (post_shorten validateUrl B now (taken @ r # rest) (Some url) w))) =
           Some (200, Link v (B @ ''/r/'' @ generateCode r) (generateCode r))
       \<and> stored_urls (snd (post_shorten validateUrl B now' draws' (Some url)
               (snd (post_shorten validateUrl B now (taken @ r # rest) (Some url) w)))) =
           stored_urls w @ [\<lparr>original = v, short = B @ ''/r/'' @ generateCode r,
              code = generateCode r, createdAt = now, clicks = Some 0\<rparr>]
       \<and> length (stored_urls (snd (post_shorten validateUrl B now' draws' (Some url)
               (snd (post_shorten validateUrl B now (taken @ r # rest) (Some url) w))))) =
           length (stored_urls w) + 1"
proof -
  let ?c = "generateCode r"
  let ?rec = "\<lparr>original = v, short = B @ ''/r/'' @ ?c, code = ?c, createdAt = now,
      clicks = Some 0\<rparr>"
  let ?d' = "d\<lparr>urls := urls d @ [?rec], codes := js_set (codes d) (code ?rec) (original ?rec)\<rparr>"
  obtain w1 where f1: "findUrl v w = (Inr None, w1)" and h1: "healthy w1 d"
    using findUrl_healthy[OF assms(1), of v] assms(4) by auto
  obtain w2 where g: "draw_code (taken @ r # rest) w1 = (Some (Inr ?c), w2)" and h2: "healthy w2 d"
    using draw_code_picks[OF h1 assms(5,6)] by blast
  obtain w3 where s: "saveUrl ?rec w2 = (Inr ?rec, w3)" and h3: "healthy w3 ?d'"
    using saveUrl_healthy_next[OF h2, of ?rec] by blast
  have first: "post_shorten validateUrl B now (taken @ r # rest) (Some url) w =
      (Some (201, Link v (B @ ''/r/'' @ ?c) ?c), w3)"
    using assms(2,3) f1 g s by (simp add: post_shorten_def Let_def)
  have fnd: "find (\<lambda>item. original item = v) (urls ?d') = Some ?rec"
    using find_append_new[of "\<lambda>item. original item = v" "urls d" ?rec] assms(4) by simp
  obtain w4 where f2: "findUrl v w3 = (Inr (Some ?rec), w4)" and h4: "healthy w4 ?d'"
    using findUrl_healthy[OF h3, of v] fnd by auto
  have second: "post_shorten validateUrl B now' draws' (Some url) w3 =
      (Some (200, Link v (B @ ''/r/'' @ ?c) ?c), w4)"
    using assms(2,3) f2 by (simp add: post_shorten_def)
  have st: "stored_urls w4 = stored_urls w @ [?rec]"
    using healthy_stored[OF h4] healthy_stored[OF assms(1)] by simp
  show ?thesis
    unfolding first second fst_conv snd_conv using st by simp
qed

text \<open>
  The store that holds \<open>link_a\<close>; the first draw gives its code, the second a free one.
\<close>

theorem shorten_twice_witness:
  "healthy (world_with (Some (JSON_of store_a))) store_a
   \<and> ''https://isabelle.in.tum.de/'' \<noteq> []
   \<and> Inr ''https://isabelle.in.tum.de/'' = (Inr ''https://isabelle.in.tum.de/'' :: string + string)
   \<and> find (\<lambda>item. original item = ''https://isabelle.in.tum.de/'') (urls store_a) = None
   \<and> list_all (\<lambda>t. truthy (js_get (codes store_a) (generateCode t))) [''0.ab12cdefgh'']
   \<and> \<not> truthy (js_get (codes store_a) (generateCode ''0.zz9xy0abcde''))
   \<and> fst (post_shorten Inr ''https://sho.rt'' ''2024-01-03T00:00:00.000Z''
            ([''0.ab12cdefgh''] @ ''0.zz9xy0abcde'' # []) (Some ''https://isabelle.in.tum.de/'')
            (world_with (Some (JSON_of store_a)))) =
        Some (201, Link ''https://isabelle.in.tum.de/'' ''https://sho.rt/r/zz9xy0'' ''zz9xy0'')
   \<and> fst (post_shorten Inr ''https://sho.rt'' ''2024-01-04T00:00:00.000Z'' []
            (Some ''https://isabelle.in.tum.de/'')
            (snd (post_shorten Inr ''https://sho.rt'' ''2024-01-03T00:00:00.000Z''
               ([''0.ab12cdefgh''] @ ''0.zz9xy0abcde'' # []) (Some ''https://isabelle.in.tum.de/'')
               (world_with (Some (JSON_of store_a)))))) =
        Some (200, Link ''https://isabelle.in.tum.de/'' ''https://sho.rt/r/zz9xy0'' ''zz9xy0'')
   \<and> stored_urls (snd (post_shorten Inr ''https://sho.rt'' ''2024-01-04T00:00:00.000Z'' []
            (Some ''https://isabelle.in.tum.de/'')
            (snd (post_shorten Inr ''https://sho.rt'' ''2024-01-03T00:00:00.000Z''
               ([''0.ab12cdefgh''] @ ''0.zz9xy0abcde'' # []) (Some ''https://isabelle.in.tum.de/'')
               (world_with (Some (JSON_of store_a))))))) = [link_a, link_b]"
proof -
  have h: "healthy (world_with (Some (JSON_of store_a))) store_a"
    by (simp add: healthy_def readable_def world_with_def)
  have u: "''https://isabelle.in.tum.de/'' \<noteq> []" by simp
  have v: "Inr ''https://isabelle.in.tum.de/'' = (Inr ''https://isabelle.in.tum.de/'' :: string + string)"
    by simp
  have n: "find (\<lambda>item. original item = ''https://isabelle.in.tum.de/'') (urls store_a) = None"
    by (simp add: store_a_def link_a_def)
  have t: "list_all (\<lambda>t. truthy (js_get (codes store_a) (generateCode t))) [''0.ab12cdefgh'']"
    by (simp add: store_a_def js_get_def generateCode_def substring_def)
  have c: "generateCode ''0.zz9xy0abcde'' = ''zz9xy0''"
    by (simp add: generateCode_def substring_def)
  have f: "\<not> truthy (js_get (codes store_a) (generateCode ''0.zz9xy0abcde''))"
    unfolding c by (simp add: store_a_def js_get_def object_prototype_names_def)
  have s: "stored_urls (world_with (Some (JSON_of store_a))) = [link_a]"
    by (simp add: stored_urls_def world_with_def store_a_def)
  show ?thesis
    using shorten_twice[where validateUrl=Inr and url="''https://isabelle.in.tum.de/''"
        and v="''https://isabelle.in.tum.de/''" and w="world_with (Some (JSON_of store_a))"
        and d=store_a and taken="[''0.ab12cdefgh'']" and r="''0.zz9xy0abcde''"
        and B="''https://sho.rt''" and now="''2024-01-03T00:00:00.000Z''" and rest="[]"
        and now'="''2024-01-04T00:00:00.000Z''" and draws'="[]", OF h u v n t f]
      h n t f
    by (simp add: c s link_b_def)
qed

text \<open>
  C8. Whatever the state of the files and however the call ends, with a result or with an
  exception, the lock file is gone after \<^verbatim>\<open>readDB\<close> and \<^verbatim>\<open>writeDB\<close> and after each of
  the four operations built on them: the \<^verbatim>\<open>finally\<close> blocks always unlock. So the next
  call of \<^verbatim>\<open>lock\<close> does not run into the wait's time limit. \<^verbatim>\<open>initDB\<close> never touches the
  lock.
\<close>

theorem lock_free_after_operation:
  "lock_held (snd (readDB w)) = False
   \<and> lock_held (snd (writeDB d w)) = False
   \<and> lock_held (snd (findUrl u w)) = False
   \<and> lock_held (snd (findCode c w)) = False
   \<and> lock_held (snd (saveUrl r w)) = False
   \<and> lock_held (snd (registerClick c w)) = False
   \<and> fst (lock (snd (readDB w))) \<noteq> Inl ELOCKED
   \<and> fst (lock (snd (writeDB d w))) \<noteq> Inl ELOCKED
   \<and> lock_held (snd (initDB w)) = lock_held w"
proof -
  have r: "lock_held (snd (readDB w)) = False" by (rule readDB_lock_free)
  have wr: "\<And>d w. lock_held (snd (writeDB d w)) = False" by (rule writeDB_lock_free)
  obtain res w1 where rd: "readDB w = (res, w1)" by (cases "readDB w")
  have w1: "lock_held w1 = False" using r rd by simp
  have fu: "lock_held (snd (findUrl u w)) = False"
    using w1 by (cases res) (simp_all add: findUrl_def rd)
  have fc: "lock_held (snd (findCode c w)) = False"
    using w1 by (cases res) (simp_all add: findCode_def rd)
  have sv: "lock_held (snd (saveUrl r w)) = False"
  proof (cases res)
    case (Inl e)
    then show ?thesis using w1 by (simp add: saveUrl_def rd)
  next
    case (Inr d0)
    obtain res2 w2 where wd: "writeDB (d0\<lparr>urls := urls d0 @ [r],
        codes := js_set (codes d0) (code r) (original r)\<rparr>) w1 = (res2, w2)"
      by (cases "writeDB (d0\<lparr>urls := urls d0 @ [r],
        codes := js_set (codes d0) (code r) (original r)\<rparr>) w1")
    have "lock_held w2 = False" using wr[of _ w1] wd by (metis snd_conv)
    then show ?thesis using Inr by (cases res2) (simp_all add: saveUrl_def rd wd)
  qed
  have rc: "lock_held (snd (registerClick c w)) = False"
  proof (cases res)
    case (Inl e)
    then show ?thesis using w1 by (simp add: registerClick_def rd)
  next
    case (Inr d0)
    show ?thesis
      using Inr w1 wr[of "d0\<lparr>urls := click_first c (urls d0)\<rparr>" w1]
      by (cases "find (\<lambda>item. code item = c) (urls d0)") (simp_all add: registerClick_def rd)
  qed
  have l: "\<And>w. lock_held w = False \<Longrightarrow> fst (lock w) \<noteq> Inl ELOCKED"
    by (simp add: lock_def split: data_dir.splits)
  have i: "lock_held (snd (initDB w)) = lock_held w"
    by (auto simp add: initDB_def fs_mkdir_def fs_access_def fs_writeFile_def emit_def
        split: data_dir.splits option.splits)
  show ?thesis using r wr[of d w] fu fc sv rc l[OF r] l[OF wr[of d w]] i by simp
qed

text \<open>
  C9. \<^verbatim>\<open>initDB\<close> on an existing data file, whatever its text, succeeds and changes
  nothing. Without the file, on a file system that lets it create and write, it makes the
  directory and writes the empty store. A second call never changes what the first left.
\<close>

theorem initDB_keeps_existing_file:
  "(fs w = Dir (Some t) \<longrightarrow> initDB w = (Inr (), w))
   \<and> ((fs w = Dir None \<or> fs w = NoDir \<and> mkdir_ok w) \<and> write_ok w \<longrightarrow>
        fst (initDB w) = Inr () \<and> fs (snd (initDB w)) = Dir (Some (JSON_of empty_db)))
   \<and> snd (initDB (snd (initDB w))) = snd (initDB w)"
  by (auto simp add: initDB_def fs_mkdir_def fs_access_def fs_writeFile_def emit_def
      JSON_stringify_def split: data_dir.splits option.splits)

text \<open>A populated file, a file that is not JSON, and the first start.\<close>

theorem initDB_keeps_existing_file_witness:
  "fs (world_with (Some (JSON_of store_a))) = Dir (Some (JSON_of store_a))
   \<and> initDB (world_with (Some (JSON_of store_a))) = (Inr (), world_with (Some (JSON_of store_a)))
   \<and> fs (world_with (Some (Not_JSON ''{''))) = Dir (Some (Not_JSON ''{''))
   \<and> initDB (world_with (Some (Not_JSON ''{''))) = (Inr (), world_with (Some (Not_JSON ''{'')))
   \<and> fs first_start = NoDir \<and> mkdir_ok first_start \<and> write_ok first_start
   \<and> fst (initDB first_start) = Inr ()
   \<and> fs (snd (initDB first_start)) = Dir (Some (JSON_of empty_db))"
  using initDB_keeps_existing_file[of "world_with (Some (JSON_of store_a))" "JSON_of store_a"]
    initDB_keeps_existing_file[of "world_with (Some (Not_JSON ''{''))" "Not_JSON ''{''"]
    initDB_keeps_existing_file[of first_start]
  by (simp add: world_with_def first_start_def)

text \<open>
  C10. When several records of the store have the same original URL, \<^verbatim>\<open>findUrl\<close> returns
  the one that comes first in the array, whatever follows it.
\<close>

theorem findUrl_first_match:
  assumes "readable w d" "urls d = xs @ r # ys" "list_all (\<lambda>x. original x \<noteq> u) xs" "original r = u"
  shows "fst (findUrl u w) = Inr (Some r)"
  using assms find_first[of "\<lambda>item. original item = u" xs r ys]
  by (simp add: findUrl_def readDB_readable)

text \<open>A store with the URL of \<open>link_a\<close> twice: the earlier record is the answer.\<close>

theorem findUrl_first_match_witness:
  "readable (world_with (Some (JSON_of store_baa))) store_baa
   \<and> urls store_baa = [link_b] @ link_a # [link_a_again]
   \<and> list_all (\<lambda>x. original x \<noteq> ''https://example.com/'') [link_b]
   \<and> original link_a = ''https://example.com/''
   \<and> original link_a_again = ''https://example.com/''
   \<and> link_a \<noteq> link_a_again
   \<and> fst (findUrl ''https://example.com/'' (world_with (Some (JSON_of store_baa)))) = Inr (Some link_a)"
proof -
  have h1: "readable (world_with (Some (JSON_of store_baa))) store_baa"
    by (simp add: readable_def world_with_def)
  have h2: "urls store_baa = [link_b] @ link_a # [link_a_again]"
    by (simp add: store_baa_def)
  have h3: "list_all (\<lambda>x. original x \<noteq> ''https://example.com/'') [link_b]"
    by (simp add: link_b_def)
  have h4: "original link_a = ''https://example.com/''"
    by (simp add: link_a_def)
  have h5: "original link_a_again = ''https://example.com/''" "link_a \<noteq> link_a_again"
    by (simp_all add: link_a_def link_a_again_def)
  show ?thesis
    using findUrl_first_match[OF h1 h2 h3 h4] h1 h2 h3 h4 h5 by simp
qed

end
